theory Spec2Isabelle
  imports Main "HOL-Library.Word"
begin

unbundle bit_operations_syntax

section \<open>Register layer (package layers)\<close>

subsection \<open>Machine types, slices and panics\<close>

type_synonym byte = "8 word"
type_synonym uint16 = "16 word"
type_synonym uint32 = "32 word"

text \<open>
  A Go run-time panic. The register layer can only raise the two bounds panics: a slice
  expression \<open>b[lo:hi]\<close> beyond the capacity, and an index beyond the length.
\<close>

datatype panic = SliceBoundsOutOfRange | IndexOutOfRange

text \<open>
  A value of Go's \<open>error\<close> interface: the \<open>ErrUnknownOperation\<close> of package
  \<open>srv\<close> with its field \<open>What\<close>, or any other error, which the code under study
  only passes on, with the text its \<open>Error()\<close> method gives.
\<close>

datatype error = ErrUnknownOperation string | Err string

text \<open>
  A byte slice is the list of its bytes from its start up to its capacity. The slice
  expression \<open>b[lo:hi]\<close> panics when the bounds are out of order or beyond that.
\<close>

definition go_slice :: "byte list \<Rightarrow> nat \<Rightarrow> nat \<Rightarrow> panic + byte list" where
  "go_slice b lo hi =
     (if lo \<le> hi \<and> hi \<le> length b then Inr (take (hi - lo) (drop lo b))
      else Inl SliceBoundsOutOfRange)"

text \<open>
  A sub-slice shares its bytes with the slice it was cut from: after a write through the
  sub-slice \<open>b[lo:hi]\<close>, whose bytes are now \<open>sub\<close>, the slice \<open>b\<close> reads as
  \<open>slice_store b lo sub\<close>.
\<close>

definition slice_store :: "byte list \<Rightarrow> nat \<Rightarrow> byte list \<Rightarrow> byte list" where
  "slice_store b lo sub = take lo b @ sub @ drop (lo + length sub) b"

text \<open>
  \<open>binary.LittleEndian.PutUint32(b, v)\<close>: the bounds check \<open>_ = b[3]\<close>, then
  \<open>b[0] = byte(v)\<close>, \<open>b[1] = byte(v >> 8)\<close>, \<open>b[2] = byte(v >> 16)\<close>,
  \<open>b[3] = byte(v >> 24)\<close>.
\<close>

definition PutUint32 :: "byte list \<Rightarrow> uint32 \<Rightarrow> panic + byte list" where
  "PutUint32 b v =
     (if length b < 4 then Inl IndexOutOfRange
      else Inr (b[0 := ucast v, 1 := ucast (drop_bit 8 v),
                  2 := ucast (drop_bit 16 v), 3 := ucast (drop_bit 24 v)]))"

text \<open>
  \<open>binary.LittleEndian.Uint32(b)\<close>: the bounds check \<open>_ = b[3]\<close>, then
  \<open>uint32(b[0]) | uint32(b[1])<<8 | uint32(b[2])<<16 | uint32(b[3])<<24\<close>.
\<close>

definition Uint32 :: "byte list \<Rightarrow> panic + uint32" where
  "Uint32 b =
     (if length b < 4 then Inl IndexOutOfRange
      else Inr (ucast (b ! 0) OR push_bit 8 (ucast (b ! 1)) OR
                push_bit 16 (ucast (b ! 2)) OR push_bit 24 (ucast (b ! 3))))"

subsection \<open>RegOp and RegLayer\<close>

record RegOp =
  Read :: bool
  RegNum :: uint16
  RegValue :: uint16

text \<open>
  \<open>RegLayer\<close> embeds gopacket's \<open>BaseLayer\<close>, whose two fields are \<open>Contents\<close>
  and \<open>Payload\<close>. The elements of \<open>RegOps\<close> are pointers in the source; the layer
  only ever stores pointers to operations it has just allocated, and the model holds the
  operations themselves.
\<close>

record RegLayer =
  Contents :: "byte list"
  Payload :: "byte list"
  RegOps :: "RegOp list"

subsection \<open>Serialize\<close>

text \<open>
  The word that \<open>Serialize\<close> hands to \<open>PutUint32\<close> for one operation, with the two
  branches of the source: \<open>0x80000000|((uint32(op.RegNum)&0x7fff)<<16)\<close> for a read and
  \<open>0x00000000|((uint32(op.RegNum)&0x7fff)<<16)|uint32(op.RegValue)\<close> for a write.
\<close>

definition Serialize_word :: "RegOp \<Rightarrow> uint32" where
  "Serialize_word op =
     (if Read op then 0x80000000 OR push_bit 16 (ucast (RegNum op) AND 0x7fff)
      else 0x00000000 OR push_bit 16 (ucast (RegNum op) AND 0x7fff) OR ucast (RegValue op))"

text \<open>
  The loop \<open>for i, op := range reg.RegOps\<close>: the remaining operations, the index
  \<open>i\<close> of the first of them and the buffer as written so far. The debug log line
  has no effect on the buffer and is left out.
\<close>

fun Serialize_loop :: "nat \<Rightarrow> RegOp list \<Rightarrow> byte list \<Rightarrow> panic + byte list" where
  "Serialize_loop i [] buf = Inr buf"
| "Serialize_loop i (op # ops) buf =
     (let offset = i * 4 in
      case go_slice buf offset (offset + 4) of
        Inl p \<Rightarrow> Inl p
      | Inr sub \<Rightarrow>
          (case PutUint32 sub (Serialize_word op) of
             Inl p \<Rightarrow> Inl p
           | Inr sub' \<Rightarrow> Serialize_loop (i + 1) ops (slice_store buf offset sub')))"

definition Serialize :: "RegLayer \<Rightarrow> byte list \<Rightarrow> panic + byte list" where
  "Serialize reg buf = Serialize_loop 0 (RegOps reg) buf"

text \<open>
  \<open>SerializeTo\<close> asks the gopacket \<open>SerializeBuffer\<close> for \<open>len(reg.RegOps) * 4\<close>
  more bytes and serializes into them. The buffer is a collaborator from the gopacket
  library: \<open>bytes\<close> are the bytes it holds, and \<open>AppendBytes n\<close> is what its
  \<open>AppendBytes(n)\<close> answers, an error or the new region at the end of the buffer with its
  initial contents (gopacket leaves them indeterminate). The result is the returned
  \<open>error\<close> and the bytes of the buffer afterwards.
\<close>

definition SerializeTo ::
  "RegLayer \<Rightarrow> (nat \<Rightarrow> error + byte list) \<Rightarrow> byte list \<Rightarrow> panic + (error option \<times> byte list)" where
  "SerializeTo reg AppendBytes bytes =
     (case AppendBytes (length (RegOps reg) * 4) of
        Inl err \<Rightarrow> Inr (Some err, bytes)
      | Inr region \<Rightarrow>
          (case Serialize reg region of
             Inl p \<Rightarrow> Inl p
           | Inr region' \<Rightarrow> Inr (None, bytes @ region')))"

subsection \<open>DecodeFromBytes\<close>

text \<open>
  The operation built from one wire word in the body of the decoding loop:
  \<open>Read\<close> is \<open>int8((word&0x80000000)>>31) == 1\<close>, \<open>RegNum\<close> is
  \<open>uint16((word & 0x7fff0000) >> 16)\<close> and \<open>RegValue\<close> is \<open>uint16(word & 0x0000ffff)\<close>.
\<close>

definition Decode_word :: "uint32 \<Rightarrow> RegOp" where
  "Decode_word word =
     \<lparr> Read = (if sint (ucast (drop_bit 31 (word AND 0x80000000)) :: 8 word) = 1
               then True else False),
       RegNum = ucast (drop_bit 16 (word AND 0x7fff0000)),
       RegValue = ucast (word AND 0x0000ffff) \<rparr>"

text \<open>
  The loop \<open>for i := 0; i < len(data) / 4; i++\<close>, appending to \<open>reg.RegOps\<close>.
\<close>

function DecodeFromBytes_loop :: "byte list \<Rightarrow> nat \<Rightarrow> RegOp list \<Rightarrow> panic + RegOp list" where
  "DecodeFromBytes_loop data i ops =
     (if i < length data div 4 then
        (let offset = i * 4 in
         case go_slice data (offset + 0) (offset + 4) of
           Inl p \<Rightarrow> Inl p
         | Inr b \<Rightarrow>
             (case Uint32 b of
                Inl p \<Rightarrow> Inl p
              | Inr word \<Rightarrow> DecodeFromBytes_loop data (i + 1) (ops @ [Decode_word word])))
      else Inr ops)"
  by pat_completeness auto
termination
  by (relation "measure (\<lambda>(data, i, ops). length data div 4 - i)") auto

declare DecodeFromBytes_loop.simps [simp del]

text \<open>
  \<open>DecodeFromBytes\<close> sets the base layer, runs the loop and returns \<open>nil\<close>. The
  decode feedback argument is not used. The result is the returned \<open>error\<close> and the layer afterwards.
\<close>

definition DecodeFromBytes ::
  "RegLayer \<Rightarrow> byte list \<Rightarrow> panic + (error option \<times> RegLayer)" where
  "DecodeFromBytes reg data =
     (let reg1 = reg\<lparr> Contents := data, Payload := [] \<rparr> in
      case DecodeFromBytes_loop data 0 (RegOps reg1) of
        Inl p \<Rightarrow> Inl p
      | Inr ops \<Rightarrow> Inr (None, reg1\<lparr> RegOps := ops \<rparr>))"

text \<open>
  \<open>DecodeRegLayer\<close> decodes into a fresh \<open>RegLayer\<close> and adds it to the packet under
  construction, here the list of its layers.
\<close>

definition DecodeRegLayer ::
  "byte list \<Rightarrow> RegLayer list \<Rightarrow> panic + (error option \<times> RegLayer list)" where
  "DecodeRegLayer data p =
     (case DecodeFromBytes \<lparr> Contents = [], Payload = [], RegOps = [] \<rparr> data of
        Inl pn \<Rightarrow> Inl pn
      | Inr (Some err, req) \<Rightarrow> Inr (Some err, p)
      | Inr (None, req) \<Rightarrow> Inr (None, p @ [req]))"

subsection \<open>Reading a frame as words\<close>

text \<open>
  Three functions used to state what the layer does. \<open>le_bytes v\<close> is the word \<open>v\<close>
  as four bytes, low byte first; \<open>word_at data i\<close> is the word read low byte first
  from the four bytes of \<open>data\<close> at offset \<open>4 * i\<close>, for \<open>i\<close> below
  \<open>length data div 4\<close>; \<open>frame_words\<close> cuts a buffer into its complete groups of four
  bytes, read low byte first, and drops what is left.
\<close>

definition word_at :: "byte list \<Rightarrow> nat \<Rightarrow> uint32" where
  "word_at data i =
     ucast (data ! (i * 4)) OR push_bit 8 (ucast (data ! (i * 4 + 1))) OR
     push_bit 16 (ucast (data ! (i * 4 + 2))) OR push_bit 24 (ucast (data ! (i * 4 + 3)))"

definition le_bytes :: "uint32 \<Rightarrow> byte list" where
  "le_bytes v = [ucast v, ucast (drop_bit 8 v), ucast (drop_bit 16 v), ucast (drop_bit 24 v)]"

fun frame_words :: "byte list \<Rightarrow> uint32 list" where
  "frame_words (b0 # b1 # b2 # b3 # bs) =
     (ucast b0 OR push_bit 8 (ucast b1) OR push_bit 16 (ucast b2) OR push_bit 24 (ucast b3))
       # frame_words bs"
| "frame_words bs = []"

section \<open>API server (package control)\<close>

subsection \<open>Collaborators\<close>

text \<open>
  \<open>RegHex\<close>, the presentation form of a register: address and value as hexadecimal text.
\<close>

record RegHex =
  Addr :: string
  Value :: string

text \<open>
  The control server interface \<open>ifc.ControlServer\<close> as the API server uses it. A device
  handle is a value of the type \<open>'d\<close>. \<open>GetAllDevices\<close> is the collection the source
  ranges over, as the list of its elements in the order the \<open>range\<close> loop visits them.
\<close>

record 'd ControlServer =
  GetDeviceByName :: "string \<Rightarrow> error + 'd"
  GetAllDevices :: "'d list"

text \<open>
  The device interface \<open>ifc.Device\<close> as the API server uses it. A device command acts
  on the world outside the server, of type \<open>'w\<close>: what it returns may depend on the
  commands issued before it. \<open>'r\<close> is the register type of package \<open>layers\<close> that
  \<open>RegReadAll\<close> returns.
\<close>

record ('d, 'r, 'w) Device =
  RegReadAll :: "'d \<Rightarrow> 'w \<Rightarrow> (error + 'r list) \<times> 'w"
  MStreamStart :: "'d \<Rightarrow> 'w \<Rightarrow> error option \<times> 'w"
  MStreamStop :: "'d \<Rightarrow> 'w \<Rightarrow> error option \<times> 'w"

text \<open>
  The state a handler runs in is the world together with the trace of the calls made to
  the registry and to the devices so far, each device command with what it returned.
\<close>

datatype 'd call =
    CallGetDeviceByName string
  | CallGetAllDevices
  | CallRegReadAll 'd
  | CallMStreamStart 'd "error option"
  | CallMStreamStop 'd "error option"

type_synonym ('d, 'w) state = "'w \<times> 'd call list"

definition call_GetDeviceByName ::
  "'d ControlServer \<Rightarrow> string \<Rightarrow> ('d, 'w) state \<Rightarrow> (error + 'd) \<times> ('d, 'w) state" where
  "call_GetDeviceByName ctrl name s =
     (GetDeviceByName ctrl name, (fst s, snd s @ [CallGetDeviceByName name]))"

definition call_GetAllDevices ::
  "'d ControlServer \<Rightarrow> ('d, 'w) state \<Rightarrow> 'd list \<times> ('d, 'w) state" where
  "call_GetAllDevices ctrl s = (GetAllDevices ctrl, (fst s, snd s @ [CallGetAllDevices]))"

definition call_RegReadAll ::
  "('d, 'r, 'w) Device \<Rightarrow> 'd \<Rightarrow> ('d, 'w) state \<Rightarrow> (error + 'r list) \<times> ('d, 'w) state" where
  "call_RegReadAll dev d s =
     (case RegReadAll dev d (fst s) of (res, w') \<Rightarrow> (res, (w', snd s @ [CallRegReadAll d])))"

definition call_MStreamStart ::
  "('d, 'r, 'w) Device \<Rightarrow> 'd \<Rightarrow> ('d, 'w) state \<Rightarrow> error option \<times> ('d, 'w) state" where
  "call_MStreamStart dev d s =
     (case MStreamStart dev d (fst s) of (err, w') \<Rightarrow> (err, (w', snd s @ [CallMStreamStart d err])))"

definition call_MStreamStop ::
  "('d, 'r, 'w) Device \<Rightarrow> 'd \<Rightarrow> ('d, 'w) state \<Rightarrow> error option \<times> ('d, 'w) state" where
  "call_MStreamStop dev d s =
     (case MStreamStop dev d (fst s) of (err, w') \<Rightarrow> (err, (w', snd s @ [CallMStreamStop d err])))"

text \<open>
  What a handler has written to its \<open>http.ResponseWriter\<close> when it returns: nothing
  (the server then answers 200 with an empty body), or one \<open>http.Error(w, err.Error(),
  code)\<close>, kept as the error whose text is the body and the status code.
\<close>

datatype response = NoResponse | HttpError error nat

definition StatusBadRequest :: nat where "StatusBadRequest = 400"
definition StatusNotFound :: nat where "StatusNotFound = 404"
definition StatusBadGateway :: nat where "StatusBadGateway = 502"

text \<open>
  \<open>mux.Vars(r)\<close> is a Go map from variable names to strings; indexing it with a name it
  does not hold gives the empty string.
\<close>

definition mux_var :: "(string \<rightharpoonup> string) \<Rightarrow> string \<Rightarrow> string" where
  "mux_var vars k = (case vars k of None \<Rightarrow> [] | Some v \<Rightarrow> v)"

subsection \<open>regReadAllHex\<close>

text \<open>
  The loop \<open>for _, reg := range regs\<close>, appending to \<open>regsHex\<close>. \<open>Hex\<close> is the method
  \<open>reg.Hex()\<close> of package \<open>layers\<close>, which returns the pair of the address and the value
  as text.
\<close>

fun regReadAllHex_loop ::
  "('r \<Rightarrow> string \<times> string) \<Rightarrow> 'r list \<Rightarrow> RegHex list \<Rightarrow> RegHex list" where
  "regReadAllHex_loop Hex [] regsHex = regsHex"
| "regReadAllHex_loop Hex (reg # regs) regsHex =
     (case Hex reg of
        (hexAddr, hexValue) \<Rightarrow>
          regReadAllHex_loop Hex regs (regsHex @ [\<lparr> Addr = hexAddr, Value = hexValue \<rparr>]))"

definition regReadAllHex ::
  "'d ControlServer \<Rightarrow> ('d, 'r, 'w) Device \<Rightarrow> ('r \<Rightarrow> string \<times> string) \<Rightarrow> string \<Rightarrow>
   ('d, 'w) state \<Rightarrow> (error + RegHex list) \<times> ('d, 'w) state" where
  "regReadAllHex ctrl dev Hex device s =
     (case call_GetDeviceByName ctrl device s of
        (Inl err, s1) \<Rightarrow> (Inl err, s1)
      | (Inr d, s1) \<Rightarrow>
          (case call_RegReadAll dev d s1 of
             (Inl err, s2) \<Rightarrow> (Inl err, s2)
           | (Inr regs, s2) \<Rightarrow> (Inr (regReadAllHex_loop Hex regs []), s2)))"

subsection \<open>handleMStreamAction\<close>

definition handleMStreamAction ::
  "'d ControlServer \<Rightarrow> ('d, 'r, 'w) Device \<Rightarrow> (string \<rightharpoonup> string) \<Rightarrow>
   ('d, 'w) state \<Rightarrow> response \<times> ('d, 'w) state" where
  "handleMStreamAction ctrl dev vars s =
     (case call_GetDeviceByName ctrl (mux_var vars ''device'') s of
        (Inl err, s1) \<Rightarrow> (HttpError err StatusNotFound, s1)
      | (Inr device, s1) \<Rightarrow>
          if mux_var vars ''action'' = ''start'' then
            (case call_MStreamStart dev device s1 of
               (Some err, s2) \<Rightarrow> (HttpError err StatusBadGateway, s2)
             | (None, s2) \<Rightarrow> (NoResponse, s2))
          else if mux_var vars ''action'' = ''stop'' then
            (case call_MStreamStop dev device s1 of
               (Some err, s2) \<Rightarrow> (HttpError err StatusBadGateway, s2)
             | (None, s2) \<Rightarrow> (NoResponse, s2))
          else
            (HttpError (ErrUnknownOperation ''Wrong MStream action. Must be one of start/stop'')
               StatusBadRequest, s1))"

subsection \<open>handleMStreamActionAll\<close>

text \<open>
  The two loops \<open>for _, d := range s.ctrl.GetAllDevices()\<close>: the first error is written
  as 502 and the handler returns.
\<close>

fun MStreamStart_loop ::
  "('d, 'r, 'w) Device \<Rightarrow> 'd list \<Rightarrow> ('d, 'w) state \<Rightarrow> response \<times> ('d, 'w) state" where
  "MStreamStart_loop dev [] s = (NoResponse, s)"
| "MStreamStart_loop dev (d # ds) s =
     (case call_MStreamStart dev d s of
        (Some err, s1) \<Rightarrow> (HttpError err StatusBadGateway, s1)
      | (None, s1) \<Rightarrow> MStreamStart_loop dev ds s1)"

fun MStreamStop_loop ::
  "('d, 'r, 'w) Device \<Rightarrow> 'd list \<Rightarrow> ('d, 'w) state \<Rightarrow> response \<times> ('d, 'w) state" where
  "MStreamStop_loop dev [] s = (NoResponse, s)"
| "MStreamStop_loop dev (d # ds) s =
     (case call_MStreamStop dev d s of
        (Some err, s1) \<Rightarrow> (HttpError err StatusBadGateway, s1)
      | (None, s1) \<Rightarrow> MStreamStop_loop dev ds s1)"

definition handleMStreamActionAll ::
  "'d ControlServer \<Rightarrow> ('d, 'r, 'w) Device \<Rightarrow> (string \<rightharpoonup> string) \<Rightarrow>
   ('d, 'w) state \<Rightarrow> response \<times> ('d, 'w) state" where
  "handleMStreamActionAll ctrl dev vars s =
     (if mux_var vars ''action'' = ''start'' then
        (case call_GetAllDevices ctrl s of (ds, s1) \<Rightarrow> MStreamStart_loop dev ds s1)
      else if mux_var vars ''action'' = ''stop'' then
        (case call_GetAllDevices ctrl s of (ds, s1) \<Rightarrow> MStreamStop_loop dev ds s1)
      else
        (HttpError (ErrUnknownOperation ''Wrong MStream action. Must be one of start/stop'')
           StatusBadRequest, s))"

section \<open>Examples\<close>

text \<open>
  A register layer with the two operations of the bit-layout examples, a serialize buffer
  that hands out zeroed regions, and a control server with three devices \<open>adc0\<close>,
  \<open>adc1\<close>, \<open>adc2\<close> (the handles \<open>0\<close>, \<open>1\<close>, \<open>2\<close>) of which the second
  refuses to start streaming. The world of the example counts the device commands issued.
\<close>

definition example_RegLayer :: RegLayer where
  "example_RegLayer =
     \<lparr> Contents = [], Payload = [],
       RegOps = [\<lparr> Read = True, RegNum = 0x1234, RegValue = 0 \<rparr>,
                 \<lparr> Read = False, RegNum = 0x0001, RegValue = 0x00FF \<rparr>] \<rparr>"

definition zeroed_AppendBytes :: "nat \<Rightarrow> error + byte list" where
  "zeroed_AppendBytes n = Inr (replicate n 0)"

definition example_ctrl :: "nat ControlServer" where
  "example_ctrl =
     \<lparr> GetDeviceByName =
         (\<lambda>name. if name = ''adc0'' then Inr 0
                  else if name = ''adc1'' then Inr 1
                  else if name = ''adc2'' then Inr 2
                  else Inl (Err ''device not found'')),
       GetAllDevices = [0, 1, 2] \<rparr>"

definition example_dev :: "(nat, nat \<times> nat, nat) Device" where
  "example_dev =
     \<lparr> RegReadAll = (\<lambda>d w. (Inr [(0, 5), (1, 9)], Suc w)),
       MStreamStart = (\<lambda>d w. (if d = 1 then Some (Err ''no link'') else None, Suc w)),
       MStreamStop = (\<lambda>d w. (None, Suc w)) \<rparr>"

definition example_Hex :: "nat \<times> nat \<Rightarrow> string \<times> string" where
  "example_Hex reg =
     (if fst reg = 0 then ''0x0000'' else ''0x0001'', if snd reg = 5 then ''0x0005'' else ''0x0009'')"

definition example_vars :: "string \<Rightarrow> string \<Rightarrow> (string \<rightharpoonup> string)" where
  "example_vars action device = [''action'' \<mapsto> action, ''device'' \<mapsto> device]"


section \<open>Properties of the register layer\<close>

subsection \<open>Words and bits\<close>

lemma mask15: "(0x7fff :: 'a::len word) = mask 15" by (simp add: mask_eq_exp_minus_1)
lemma mask16: "(0xffff :: 'a::len word) = mask 16" by (simp add: mask_eq_exp_minus_1)
lemma hi15: "(0x7fff0000 :: uint32) = push_bit 16 (mask 15)" by (simp add: mask_eq_exp_minus_1)

lemma bit_top_int: "bit (0x80000000 :: int) n \<longleftrightarrow> n = 31"
proof -
  have a: "push_bit 31 (1 :: int) = 0x80000000" by simp
  have "bit (push_bit 31 (1 :: int)) n \<longleftrightarrow> n = 31"
    by (simp only: bit_push_bit_iff bit_1_iff possible_bit_int) auto
  then show ?thesis unfolding a .
qed

lemma top_bit: "drop_bit 31 (w AND (0x80000000 :: uint32)) = (if bit w 31 then 1 else 0)"
proof (rule bit_word_eqI)
  fix n assume "n < LENGTH(32)"
  then show "bit (drop_bit 31 (w AND 0x80000000)) n = bit (if bit w 31 then 1 else 0 :: uint32) n"
    by (cases "n = 0") (auto simp: bit_simps bit_top_int dest: bit_imp_le_length)
qed

lemma Read_Decode_word: "Read (Decode_word w) = bit w 31"
  unfolding Decode_word_def top_bit by simp

lemma RegNum_Decode_word: "RegNum (Decode_word w) = ucast (drop_bit 16 w) AND 0x7fff"
  unfolding Decode_word_def mask15 hi15
  apply simp
  apply (rule bit_word_eqI) 
  apply (auto simp: bit_simps)
  done

lemma RegValue_Decode_word: "RegValue (Decode_word w) = ucast w"
  unfolding Decode_word_def mask16
  apply simp
  apply (rule bit_word_eqI) 
  apply (auto simp: bit_simps)
  done

lemma bit_Serialize_word:
  "bit (Serialize_word op) n \<longleftrightarrow>
     (n = 31 \<and> Read op) \<or> (16 \<le> n \<and> n < 31 \<and> bit (RegNum op) (n - 16)) \<or>
     (n < 16 \<and> \<not> Read op \<and> bit (RegValue op) n)"
  unfolding Serialize_word_def mask15
  by (auto simp: bit_simps bit_top_int dest: bit_imp_le_length)

lemma bit31_Serialize_word: "bit (Serialize_word op) 31 = Read op"
  by (simp add: bit_Serialize_word)

lemma hi_Serialize_word: "ucast (drop_bit 16 (Serialize_word op)) AND 0x7fff = RegNum op AND 0x7fff"
  unfolding mask15
  by (rule bit_word_eqI) (auto simp: bit_simps bit_Serialize_word)

lemma lo_Serialize_word: "(ucast (Serialize_word op) :: uint16) = (if Read op then 0 else RegValue op)"
  by (rule bit_word_eqI) (auto simp: bit_simps bit_Serialize_word)

lemma Decode_Serialize_word:
  "Decode_word (Serialize_word op) =
     op\<lparr> RegNum := RegNum op AND 0x7fff, RegValue := (if Read op then 0 else RegValue op) \<rparr>"
  by (rule RegOp.equality) (simp_all add: Read_Decode_word RegNum_Decode_word RegValue_Decode_word
      bit31_Serialize_word hi_Serialize_word lo_Serialize_word)



lemma PutUint32_4: "length b = 4 \<Longrightarrow> PutUint32 b v = Inr (le_bytes v)"
  unfolding PutUint32_def le_bytes_def
  by (cases b; simp; cases "tl b"; simp; cases "tl (tl b)"; simp; cases "tl (tl (tl b))"; simp)

lemma length_le_bytes: "length (le_bytes v) = 4"
  by (simp add: le_bytes_def)

lemma Serialize_step:
  assumes "i * 4 + 4 \<le> length buf"
  shows "go_slice buf (i * 4) (i * 4 + 4) = Inr (take 4 (drop (i * 4) buf))"
  using assms by (simp add: go_slice_def)

lemma Serialize_loop_ok:
  "i * 4 + 4 * length ops \<le> length buf \<Longrightarrow>
   Serialize_loop i ops buf =
     Inr (take (i * 4) buf @ concat (map (\<lambda>op. le_bytes (Serialize_word op)) ops)
            @ drop (i * 4 + 4 * length ops) buf)"
proof (induction ops arbitrary: i buf)
  case Nil
  then show ?case by simp
next
  case (Cons op ops)
  let ?w = "Serialize_word op"
  let ?buf' = "slice_store buf (i * 4) (le_bytes ?w)"
  from Cons.prems have le: "i * 4 + 4 \<le> length buf" by simp
  have len: "length ?buf' = length buf"
    using le by (simp add: slice_store_def length_le_bytes)
  have put: "PutUint32 (take 4 (drop (i * 4) buf)) ?w = Inr (le_bytes ?w)"
    using le by (intro PutUint32_4) simp
  have step: "Serialize_loop i (op # ops) buf = Serialize_loop (i + 1) ops ?buf'"
    using le by (simp add: Serialize_step put)
  have pre: "(i + 1) * 4 + 4 * length ops \<le> length ?buf'"
    using Cons.prems len by simp
  have t: "take ((i + 1) * 4) ?buf' = take (i * 4) buf @ le_bytes ?w"
    using le by (simp add: slice_store_def length_le_bytes)
  have d: "drop ((i + 1) * 4 + 4 * length ops) ?buf' = drop (i * 4 + 4 * length (op # ops)) buf"
    using le by (simp add: slice_store_def length_le_bytes add.commute add.left_commute)
  show ?case
    unfolding step Cons.IH [OF pre] t d by simp
qed

lemma drop4_Suc:
  "Suc (Suc (Suc (Suc k))) \<le> length xs \<Longrightarrow>
   drop k xs = xs ! k # xs ! Suc k # xs ! Suc (Suc k) # xs ! Suc (Suc (Suc k))
     # drop (Suc (Suc (Suc (Suc k)))) xs"
  by (simp add: Cons_nth_drop_Suc)

lemma drop4:
  assumes "i * 4 + 4 \<le> length data"
  shows "drop (i * 4) data =
     data ! (i * 4) # data ! (i * 4 + 1) # data ! (i * 4 + 2) # data ! (i * 4 + 3)
       # drop ((i + 1) * 4) data"
proof -
  have e: "i * 4 + 1 = Suc (i * 4)" "i * 4 + 2 = Suc (Suc (i * 4))"
    "i * 4 + 3 = Suc (Suc (Suc (i * 4)))" "(i + 1) * 4 = Suc (Suc (Suc (Suc (i * 4))))"
    by simp_all
  from assms have "Suc (Suc (Suc (Suc (i * 4)))) \<le> length data" by simp
  from drop4_Suc [OF this] show ?thesis unfolding e .
qed

lemma DecodeFromBytes_loop_eq:
  "DecodeFromBytes_loop data i ops =
     Inr (ops @ map Decode_word (frame_words (drop (i * 4) data)))"
proof (induction data i ops rule: DecodeFromBytes_loop.induct)
  case (1 data i ops)
  show ?case
  proof (cases "i < length data div 4")
    case True
    then have le: "i * 4 + 4 \<le> length data" by simp
    note d = drop4 [OF le]
    let ?b = "[data ! (i * 4), data ! (i * 4 + 1), data ! (i * 4 + 2), data ! (i * 4 + 3)]"
    let ?w = "ucast (data ! (i * 4)) OR push_bit 8 (ucast (data ! (i * 4 + 1))) OR
              push_bit 16 (ucast (data ! (i * 4 + 2))) OR push_bit 24 (ucast (data ! (i * 4 + 3))) :: uint32"
    have sl: "go_slice data (i * 4 + 0) (i * 4 + 4) = Inr ?b"
      using le by (simp add: go_slice_def d)
    have u: "Uint32 ?b = Inr ?w"
      by (simp add: Uint32_def)
    have fw: "frame_words (drop (i * 4) data) = ?w # frame_words (drop ((i + 1) * 4) data)"
      by (subst d) simp
    have "DecodeFromBytes_loop data i ops = DecodeFromBytes_loop data (i + 1) (ops @ [Decode_word ?w])"
      by (subst DecodeFromBytes_loop.simps) (simp only: True if_True Let_def sl u sum.case)
    also have "\<dots> = Inr ((ops @ [Decode_word ?w]) @ map Decode_word (frame_words (drop ((i + 1) * 4) data)))"
      using True by (intro "1.IH" [OF True refl sl u])
    finally show ?thesis by (simp add: fw)
  next
    case False
    then have "length (drop (i * 4) data) < 4" by simp
    then have "frame_words (drop (i * 4) data) = []"
      by (cases "drop (i * 4) data" rule: frame_words.cases) simp_all
    with False show ?thesis
      by (subst DecodeFromBytes_loop.simps) simp
  qed
qed

lemma length_frame_words: "length (frame_words bs) = length bs div 4"
  by (induction bs rule: frame_words.induct) simp_all

lemma frame_words_nth:
  "i < length bs div 4 \<Longrightarrow>
   frame_words bs ! i =
     ucast (bs ! (i * 4)) OR push_bit 8 (ucast (bs ! (i * 4 + 1))) OR
     push_bit 16 (ucast (bs ! (i * 4 + 2))) OR push_bit 24 (ucast (bs ! (i * 4 + 3)))"
proof (induction bs arbitrary: i rule: frame_words.induct)
  case (1 b0 b1 b2 b3 bs)
  then show ?case by (cases i) (simp_all add: add.commute [of 3])
qed simp_all


lemma Uint32_le_bytes: "Uint32 (le_bytes v) = Inr v"
proof -
  have "ucast (ucast v :: byte) OR push_bit 8 (ucast (ucast (drop_bit 8 v) :: byte)) OR
        push_bit 16 (ucast (ucast (drop_bit 16 v) :: byte)) OR
        push_bit 24 (ucast (ucast (drop_bit 24 v) :: byte)) = v"
  proof (rule bit_word_eqI)
    fix n assume "n < LENGTH(32)"
    then have n: "n < 32" by simp
    consider "n < 8" | "8 \<le> n" "n < 16" | "16 \<le> n" "n < 24" | "24 \<le> n"
      by linarith
    then show "bit (ucast (ucast v :: byte) OR push_bit 8 (ucast (ucast (drop_bit 8 v) :: byte)) OR
        push_bit 16 (ucast (ucast (drop_bit 16 v) :: byte)) OR
        push_bit 24 (ucast (ucast (drop_bit 24 v) :: byte)) :: uint32) n = bit v n"
      using n by cases (auto simp: bit_simps)
  qed
  then show ?thesis
    by (simp add: Uint32_def le_bytes_def)
qed

lemma frame_words_le_bytes: "frame_words (le_bytes v @ bs) = v # frame_words bs"
  using Uint32_le_bytes [of v] by (simp add: le_bytes_def Uint32_def)

lemma frame_words_concat:
  "frame_words (concat (map le_bytes ws)) = ws"
  by (induction ws) (simp_all add: frame_words_le_bytes)

lemma frame_words_word_at:
  "frame_words data = map (word_at data) [0..<length data div 4]"
  by (rule nth_equalityI) (simp_all add: length_frame_words frame_words_nth word_at_def)

lemma DecodeFromBytes_eq:
  "DecodeFromBytes reg data =
     Inr (None, \<lparr> Contents = data, Payload = [],
                  RegOps = RegOps reg @ map Decode_word (frame_words data) \<rparr>)"
  by (simp add: DecodeFromBytes_def DecodeFromBytes_loop_eq)

lemma Serialize_eq:
  "4 * length (RegOps reg) \<le> length buf \<Longrightarrow>
   Serialize reg buf =
     Inr (concat (map (\<lambda>op. le_bytes (Serialize_word op)) (RegOps reg))
            @ drop (4 * length (RegOps reg)) buf)"
  using Serialize_loop_ok [of 0 "RegOps reg" buf] by (simp add: Serialize_def)

lemma length_concat_le_bytes:
  "length (concat (map (\<lambda>op. le_bytes (f op)) ops)) = 4 * length ops"
  by (induction ops) (simp_all add: length_le_bytes)

lemma chunk_concat_le_bytes:
  "i < length ops \<Longrightarrow>
   take 4 (drop (4 * i) (concat (map (\<lambda>op. le_bytes (f op)) ops) @ rest)) = le_bytes (f (ops ! i))"
proof (induction ops arbitrary: i)
  case Nil
  then show ?case by simp
next
  case (Cons op ops)
  show ?case
  proof (cases i)
    case 0
    then show ?thesis by (simp add: length_le_bytes)
  next
    case (Suc j)
    with Cons.prems have j: "j < length ops" by simp
    have "drop (4 * Suc j) (le_bytes (f op) @ concat (map (\<lambda>op. le_bytes (f op)) ops) @ rest)
            = drop (4 * j) (concat (map (\<lambda>op. le_bytes (f op)) ops) @ rest)"
      by (simp add: length_le_bytes)
    with Cons.IH [OF j] Suc show ?thesis by simp
  qed
qed

lemma field_RegNum_Serialize_word:
  "drop_bit 16 (Serialize_word op AND 0x7fff0000) = ucast (RegNum op AND 0x7fff)"
  unfolding mask15 hi15
  by (rule bit_word_eqI) (auto simp: bit_simps bit_Serialize_word)

lemma field_RegValue_Serialize_word:
  "Serialize_word op AND 0xffff = (if Read op then 0 else ucast (RegValue op))"
  unfolding mask16
  by (rule bit_word_eqI) (auto simp: bit_simps bit_Serialize_word dest: bit_imp_le_length)

lemma RegNum_in_range: "(n :: uint16) < 2 ^ 15 \<Longrightarrow> n AND 0x7fff = n"
  unfolding mask15 by (simp add: less_mask_eq)

lemma Decode_Serialize_word_in_range:
  "RegNum op < 2 ^ 15 \<Longrightarrow>
   Decode_word (Serialize_word op) = (if Read op then op\<lparr> RegValue := 0 \<rparr> else op)"
  by (simp add: Decode_Serialize_word RegNum_in_range)

lemma RegNum_Decode_word_less: "RegNum (Decode_word w) < 2 ^ 15"
  unfolding RegNum_Decode_word mask15
  using and_mask_less' [of 15 "ucast (drop_bit 16 w) :: uint16"] by simp

lemma RegNum_Decode_word_bit15: "\<not> bit (RegNum (Decode_word w)) 15"
  unfolding RegNum_Decode_word mask15
  by (simp add: bit_simps)

lemma frame_words_take:
  "frame_words (take (4 * (length bs div 4)) bs) = frame_words bs"
proof (induction bs rule: frame_words.induct)
  case (1 b0 b1 b2 b3 bs)
  have "4 * (length (b0 # b1 # b2 # b3 # bs) div 4) = Suc (Suc (Suc (Suc (4 * (length bs div 4)))))"
  proof -
    have "(4 + length bs) div 4 = Suc (length bs div 4)" by presburger
    then show ?thesis by simp
  qed
  with 1 show ?case by (simp del: mult_Suc_right)
qed simp_all

lemma Serialize_loop_short:
  "length buf < i * 4 + 4 * length ops \<Longrightarrow> i * 4 \<le> length buf \<Longrightarrow>
   Serialize_loop i ops buf = Inl SliceBoundsOutOfRange"
proof (induction ops arbitrary: i buf)
  case Nil
  then show ?case by simp
next
  case (Cons op ops)
  show ?case
  proof (cases "i * 4 + 4 \<le> length buf")
    case True
    let ?buf' = "slice_store buf (i * 4) (le_bytes (Serialize_word op))"
    have len: "length ?buf' = length buf"
      using True by (simp add: slice_store_def length_le_bytes)
    have put: "PutUint32 (take 4 (drop (i * 4) buf)) (Serialize_word op)
        = Inr (le_bytes (Serialize_word op))"
      using True by (intro PutUint32_4) simp
    have step: "Serialize_loop i (op # ops) buf = Serialize_loop (i + 1) ops ?buf'"
      using True by (simp add: Serialize_step put)
    have "Serialize_loop (i + 1) ops ?buf' = Inl SliceBoundsOutOfRange"
      using Cons.prems True len by (intro Cons.IH) simp_all
    with step show ?thesis by simp
  next
    case False
    then show ?thesis by (simp add: go_slice_def)
  qed
qed

lemma Serialize_short_buffer:
  "length buf < 4 * length (RegOps reg) \<Longrightarrow> Serialize reg buf = Inl SliceBoundsOutOfRange"
  using Serialize_loop_short [of buf 0 "RegOps reg"] by (simp add: Serialize_def)

lemma SerializeTo_error:
  "AppendBytes (length (RegOps reg) * 4) = Inl err \<Longrightarrow>
   SerializeTo reg AppendBytes bytes = Inr (Some err, bytes)"
  by (simp add: SerializeTo_def)

subsection \<open>Bit layout of the wire word\<close>

text \<open>
  Claim C5. Serializing the read operation of register \<open>0x1234\<close> gives the wire word
  \<open>0x92340000\<close> whatever its \<open>RegValue\<close>, on the wire the bytes
  \<open>00 00 34 92\<close>; serializing the write of \<open>0x00FF\<close> to register \<open>0x0001\<close> gives
  \<open>0x000100FF\<close>, on the wire \<open>FF 00 01 00\<close>.
\<close>

theorem bit_layout_exactness:
  "Serialize_word \<lparr> Read = True, RegNum = 0x1234, RegValue = v \<rparr> = 0x92340000 \<and>
   Serialize (reg\<lparr> RegOps := [\<lparr> Read = True, RegNum = 0x1234, RegValue = v \<rparr>] \<rparr>) [b0, b1, b2, b3]
     = Inr [0x00, 0x00, 0x34, 0x92] \<and>
   Serialize_word \<lparr> Read = False, RegNum = 0x0001, RegValue = 0x00FF \<rparr> = 0x000100FF \<and>
   Serialize (reg\<lparr> RegOps := [\<lparr> Read = False, RegNum = 0x0001, RegValue = 0x00FF \<rparr>] \<rparr>) [b0, b1, b2, b3]
     = Inr [0xFF, 0x00, 0x01, 0x00]"
  by (simp add: Serialize_eq Serialize_word_def le_bytes_def)

subsection \<open>Truncation on encode\<close>

text \<open>
  Claim C6. Serializing into a buffer that has room for the frame returns without a
  panic, whatever the fields of the operations hold. In the word of an operation the
  register-number field (bits 30..16) is \<open>RegNum\<close> cut to its low 15 bits, so that
  \<open>0xFFFF\<close> is written as \<open>0x7FFF\<close>; bit 31 is the read flag alone; the value field
  (bits 15..0) is the 16 bits of \<open>RegValue\<close> for a write and zero for a read.
\<close>

theorem encode_total_truncating:
  assumes "4 * length (RegOps reg) \<le> length buf"
  shows "(\<exists>out. Serialize reg buf = Inr out) \<and>
         drop_bit 16 (Serialize_word op AND 0x7fff0000) = ucast (RegNum op AND 0x7fff) \<and>
         bit (Serialize_word op) 31 = Read op \<and>
         Serialize_word op AND 0xffff = (if Read op then 0 else ucast (RegValue op)) \<and>
         drop_bit 16 (Serialize_word (op\<lparr> RegNum := 0xFFFF \<rparr>) AND 0x7fff0000) = 0x7FFF"
proof -
  have a: "\<exists>out. Serialize reg buf = Inr out"
    using Serialize_eq [OF assms] by blast
  have e0: "RegNum (op\<lparr> RegNum := 0xFFFF \<rparr>) = 0xFFFF" by simp
  have e1: "(ucast ((0xFFFF :: uint16) AND 0x7fff) :: uint32) = 0x7FFF" by simp
  have e: "drop_bit 16 (Serialize_word (op\<lparr> RegNum := 0xFFFF \<rparr>) AND 0x7fff0000) = 0x7FFF"
    unfolding field_RegNum_Serialize_word e0 e1 ..
  from a e field_RegNum_Serialize_word [of op] bit31_Serialize_word [of op]
    field_RegValue_Serialize_word [of op]
  show ?thesis by blast
qed

theorem encode_total_truncating_witness:
  "4 * length (RegOps \<lparr> Contents = [], Payload = [],
                        RegOps = [\<lparr> Read = False, RegNum = 0xFFFF, RegValue = 0xABCD \<rparr>] \<rparr>)
     \<le> length [0, 0, 0, 0 :: byte] \<and>
   Serialize \<lparr> Contents = [], Payload = [],
               RegOps = [\<lparr> Read = False, RegNum = 0xFFFF, RegValue = 0xABCD \<rparr>] \<rparr> [0, 0, 0, 0]
     = Inr [0xCD, 0xAB, 0xFF, 0x7F] \<and>
   drop_bit 16 (Serialize_word \<lparr> Read = False, RegNum = 0xFFFF, RegValue = 0xABCD \<rparr> AND 0x7fff0000)
     = 0x7FFF"
  using encode_total_truncating [of "\<lparr> Contents = [], Payload = [],
               RegOps = [\<lparr> Read = False, RegNum = 0xFFFF, RegValue = 0xABCD \<rparr>] \<rparr>" "[0, 0, 0, 0]"
               "\<lparr> Read = False, RegNum = 0xFFFF, RegValue = 0xABCD \<rparr>"]
  by (simp add: Serialize_eq Serialize_word_def le_bytes_def)

subsection \<open>Layout of the frame\<close>

text \<open>
  Claim C7. Serializing the operations \<open>ops\<close> of a layer writes a frame of exactly
  \<open>4 * length ops\<close> bytes at the start of the buffer and leaves the rest of the buffer as
  it was; the four bytes of the frame at offset \<open>4 * i\<close> are the word of \<open>ops ! i\<close>,
  low byte first. \<open>SerializeTo\<close>, given the region of \<open>length ops * 4\<close> bytes it asked
  the serialize buffer for, returns no error and leaves in the buffer its former bytes
  followed by exactly that frame.
\<close>

theorem frame_serialization_layout:
  assumes "4 * length (RegOps reg) \<le> length buf"
    and "AppendBytes (length (RegOps reg) * 4) = Inr region"
    and "length region = length (RegOps reg) * 4"
  shows "\<exists>frame. length frame = 4 * length (RegOps reg) \<and>
           (\<forall>i<length (RegOps reg).
              take 4 (drop (4 * i) frame) = le_bytes (Serialize_word (RegOps reg ! i))) \<and>
           Serialize reg buf = Inr (frame @ drop (4 * length (RegOps reg)) buf) \<and>
           SerializeTo reg AppendBytes bytes = Inr (None, bytes @ frame)"
proof -
  let ?frame = "concat (map (\<lambda>op. le_bytes (Serialize_word op)) (RegOps reg))"
  have len: "length ?frame = 4 * length (RegOps reg)"
    by (rule length_concat_le_bytes)
  have chunks: "\<forall>i<length (RegOps reg).
      take 4 (drop (4 * i) ?frame) = le_bytes (Serialize_word (RegOps reg ! i))"
    using chunk_concat_le_bytes [of _ "RegOps reg" Serialize_word "[]"] by simp
  have ser: "Serialize reg buf = Inr (?frame @ drop (4 * length (RegOps reg)) buf)"
    by (rule Serialize_eq [OF assms(1)])
  have "Serialize reg region = Inr ?frame"
    using Serialize_eq [of reg region] assms(3) by simp
  then have "SerializeTo reg AppendBytes bytes = Inr (None, bytes @ ?frame)"
    by (simp add: SerializeTo_def assms(2))
  with len chunks ser show ?thesis by blast
qed

theorem frame_serialization_layout_witness:
  "4 * length (RegOps example_RegLayer) \<le> length (replicate 8 0 :: byte list) \<and>
   zeroed_AppendBytes (length (RegOps example_RegLayer) * 4) = Inr (replicate 8 0) \<and>
   length (replicate 8 0 :: byte list) = length (RegOps example_RegLayer) * 4 \<and>
   Serialize example_RegLayer (replicate 8 0) = Inr [0x00, 0x00, 0x34, 0x92, 0xFF, 0x00, 0x01, 0x00] \<and>
   SerializeTo example_RegLayer zeroed_AppendBytes [0xAA]
     = Inr (None, [0xAA, 0x00, 0x00, 0x34, 0x92, 0xFF, 0x00, 0x01, 0x00])"
  using frame_serialization_layout [of example_RegLayer "replicate 8 0" zeroed_AppendBytes
      "replicate 8 0" "[0xAA]"]
  by (simp add: example_RegLayer_def zeroed_AppendBytes_def SerializeTo_def Serialize_eq
      Serialize_word_def le_bytes_def)

subsection \<open>Decoding a buffer of any length\<close>

text \<open>
  Claim C1, as the code has it. \<open>DecodeFromBytes\<close> has no length check and no malformed
  frame error: for every buffer it returns \<open>nil\<close>, keeps the buffer as the contents of
  the layer and appends to \<open>RegOps\<close> one operation for each of the
  \<open>length data div 4\<close> complete words of the buffer, in byte order, the operation
  number \<open>i\<close> decoded from the four bytes at offset \<open>4 * i\<close>. Bytes after the last
  complete word are not decoded. An empty buffer adds no operation.
  \<open>DecodeRegLayer\<close>, which starts from a fresh layer, adds to the packet a layer with
  exactly these operations.
\<close>

theorem decode_any_length:
  "DecodeFromBytes reg data =
     Inr (None, \<lparr> Contents = data, Payload = [],
                  RegOps = RegOps reg @ map (\<lambda>i. Decode_word (word_at data i))
                                            [0..<length data div 4] \<rparr>) \<and>
   DecodeFromBytes reg [] = Inr (None, \<lparr> Contents = [], Payload = [], RegOps = RegOps reg \<rparr>) \<and>
   DecodeRegLayer data p =
     Inr (None, p @ [\<lparr> Contents = data, Payload = [],
                        RegOps = map (\<lambda>i. Decode_word (word_at data i))
                                   [0..<length data div 4] \<rparr>])"
  by (simp add: DecodeRegLayer_def DecodeFromBytes_eq frame_words_word_at)

text \<open>
  The claim as the specification words it fails on a buffer of three bytes and on one of
  five: neither is rejected. The first decodes to no operation, the second to the one
  operation of its first four bytes, its fifth byte dropped.
\<close>

theorem decode_any_length_counterexample:
  "DecodeFromBytes \<lparr> Contents = [], Payload = [], RegOps = [] \<rparr> [0x01, 0x02, 0x03]
     = Inr (None, \<lparr> Contents = [0x01, 0x02, 0x03], Payload = [], RegOps = [] \<rparr>) \<and>
   DecodeFromBytes \<lparr> Contents = [], Payload = [], RegOps = [] \<rparr> [0xFF, 0x00, 0x01, 0x00, 0x07]
     = Inr (None, \<lparr> Contents = [0xFF, 0x00, 0x01, 0x00, 0x07], Payload = [],
                     RegOps = [\<lparr> Read = False, RegNum = 0x0001, RegValue = 0x00FF \<rparr>] \<rparr>)"
  by (simp add: DecodeFromBytes_eq Decode_word_def)

text \<open>
  Claim C9. \<open>DecodeFromBytes\<close> returns \<open>nil\<close> for every buffer, without a panic. It
  appends exactly \<open>length data div 4\<close> operations, the same ones as for the buffer cut
  after its last complete word: the at most three bytes that follow are ignored.
\<close>

theorem decode_total:
  "\<exists>reg' reg''.
     DecodeFromBytes reg data = Inr (None, reg') \<and>
     length (RegOps reg') = length (RegOps reg) + length data div 4 \<and>
     DecodeFromBytes reg (take (4 * (length data div 4)) data) = Inr (None, reg'') \<and>
     RegOps reg'' = RegOps reg' \<and>
     length data - 4 * (length data div 4) \<le> 3"
proof -
  have "length data - 4 * (length data div 4) \<le> 3" by presburger
  then show ?thesis
    by (simp add: DecodeFromBytes_eq length_frame_words frame_words_take)
qed

text \<open>
  Claim C10. Every operation that \<open>DecodeFromBytes\<close> appends has a register number
  below \<open>2 ^ 15\<close>: its bit 15 is clear whatever the bytes of the buffer are. The same
  holds for the operation decoded from any single word \<open>w\<close>, also when bit 31 of \<open>w\<close>,
  the read flag, is set.
\<close>

theorem decoded_RegNum_15_bits:
  assumes "DecodeFromBytes reg data = Inr (err, reg')"
  shows "(\<forall>op \<in> set (drop (length (RegOps reg)) (RegOps reg')).
            RegNum op < 2 ^ 15 \<and> \<not> bit (RegNum op) 15) \<and>
         RegNum (Decode_word w) < 2 ^ 15 \<and> \<not> bit (RegNum (Decode_word w)) 15"
proof -
  from assms have "RegOps reg' = RegOps reg @ map Decode_word (frame_words data)"
    by (auto simp: DecodeFromBytes_eq)
  then show ?thesis
    by (auto simp: RegNum_Decode_word_less [simplified] RegNum_Decode_word_bit15)
qed

theorem decoded_RegNum_15_bits_witness:
  "DecodeFromBytes \<lparr> Contents = [], Payload = [], RegOps = [] \<rparr> [0xFF, 0xFF, 0xFF, 0xFF]
     = Inr (None, \<lparr> Contents = [0xFF, 0xFF, 0xFF, 0xFF], Payload = [],
                     RegOps = [\<lparr> Read = True, RegNum = 0x7FFF, RegValue = 0xFFFF \<rparr>] \<rparr>) \<and>
   RegNum \<lparr> Read = True, RegNum = 0x7FFF, RegValue = 0xFFFF \<rparr> < 2 ^ 15 \<and>
   \<not> bit (RegNum \<lparr> Read = True, RegNum = 0x7FFF, RegValue = 0xFFFF \<rparr>) 15"
proof -
  have run: "DecodeFromBytes \<lparr> Contents = [], Payload = [], RegOps = [] \<rparr> [0xFF, 0xFF, 0xFF, 0xFF]
     = Inr (None, \<lparr> Contents = [0xFF, 0xFF, 0xFF, 0xFF], Payload = [],
                     RegOps = [\<lparr> Read = True, RegNum = 0x7FFF, RegValue = 0xFFFF \<rparr>] \<rparr>)"
    by (simp add: DecodeFromBytes_eq Decode_word_def)
  from decoded_RegNum_15_bits [OF run] run show ?thesis by simp
qed

subsection \<open>Round trip\<close>

text \<open>
  Claim C2, as the code has it. Let every operation of a layer have its register number
  below \<open>2 ^ 15\<close> (a \<open>RegValue\<close> is below \<open>2 ^ 16\<close> by its type). Decoding the frame
  that \<open>Serialize\<close> wrote appends these operations in the same order and field for field,
  except that a read operation comes back with \<open>RegValue\<close> zero: \<open>Serialize\<close> does not
  put the value of a read on the wire. So the operations come back unchanged when every
  read among them carries the value zero.
\<close>

theorem round_trip:
  assumes "\<forall>op \<in> set (RegOps reg). RegNum op < 2 ^ 15"
    and "length buf = 4 * length (RegOps reg)"
  shows "\<exists>bytes.
           Serialize reg buf = Inr bytes \<and>
           DecodeFromBytes reg0 bytes =
             Inr (None, \<lparr> Contents = bytes, Payload = [],
                          RegOps = RegOps reg0 @
                            map (\<lambda>op. if Read op then op\<lparr> RegValue := 0 \<rparr> else op) (RegOps reg) \<rparr>) \<and>
           ((\<forall>op \<in> set (RegOps reg). Read op \<longrightarrow> RegValue op = 0) \<longrightarrow>
              map (\<lambda>op. if Read op then op\<lparr> RegValue := 0 \<rparr> else op) (RegOps reg) = RegOps reg)"
proof -
  let ?frame = "concat (map (\<lambda>op. le_bytes (Serialize_word op)) (RegOps reg))"
  let ?norm = "\<lambda>op. if Read op then op\<lparr> RegValue := 0 \<rparr> else op"
  have ser: "Serialize reg buf = Inr ?frame"
    using Serialize_eq [of reg buf] assms(2) by simp
  have "?frame = concat (map le_bytes (map Serialize_word (RegOps reg)))"
    by (simp add: comp_def)
  then have fw: "frame_words ?frame = map Serialize_word (RegOps reg)"
    by (simp only: frame_words_concat)
  have "map Decode_word (map Serialize_word (RegOps reg)) = map ?norm (RegOps reg)"
    using assms(1) by (simp add: Decode_Serialize_word_in_range)
  with fw have dec: "DecodeFromBytes reg0 ?frame =
      Inr (None, \<lparr> Contents = ?frame, Payload = [], RegOps = RegOps reg0 @ map ?norm (RegOps reg) \<rparr>)"
    by (simp only: DecodeFromBytes_eq)
  have same: "(\<forall>op \<in> set (RegOps reg). Read op \<longrightarrow> RegValue op = 0) \<longrightarrow>
      map ?norm (RegOps reg) = RegOps reg"
    by (auto intro!: map_idI)
  from ser dec same show ?thesis by blast
qed

theorem round_trip_witness:
  "RegNum \<lparr> Read = True, RegNum = 0x1234, RegValue = 0 \<rparr> < 2 ^ 15 \<and>
   RegNum \<lparr> Read = False, RegNum = 0x0001, RegValue = 0x00FF \<rparr> < 2 ^ 15 \<and>
   length (replicate 8 0 :: byte list) = 4 * length (RegOps example_RegLayer) \<and>
   Serialize example_RegLayer (replicate 8 0) = Inr [0x00, 0x00, 0x34, 0x92, 0xFF, 0x00, 0x01, 0x00] \<and>
   DecodeFromBytes \<lparr> Contents = [], Payload = [], RegOps = [] \<rparr>
       [0x00, 0x00, 0x34, 0x92, 0xFF, 0x00, 0x01, 0x00]
     = Inr (None, \<lparr> Contents = [0x00, 0x00, 0x34, 0x92, 0xFF, 0x00, 0x01, 0x00], Payload = [],
                     RegOps = RegOps example_RegLayer \<rparr>)"
  using round_trip [of example_RegLayer "replicate 8 0" "\<lparr> Contents = [], Payload = [], RegOps = [] \<rparr>"]
  by (simp add: example_RegLayer_def Serialize_eq Serialize_word_def le_bytes_def
      DecodeFromBytes_eq Decode_word_def)

text \<open>
  The claim as the specification words it fails on a read operation with a value that is
  not zero: the read of register 1 with \<open>RegValue = 5\<close> is in range, and comes back with
  \<open>RegValue = 0\<close>.
\<close>

theorem round_trip_counterexample:
  "RegNum \<lparr> Read = True, RegNum = 0x0001, RegValue = 0x0005 \<rparr> < 2 ^ 15 \<and>
   Serialize \<lparr> Contents = [], Payload = [],
               RegOps = [\<lparr> Read = True, RegNum = 0x0001, RegValue = 0x0005 \<rparr>] \<rparr> [0, 0, 0, 0]
     = Inr [0x00, 0x00, 0x01, 0x80] \<and>
   DecodeFromBytes \<lparr> Contents = [], Payload = [], RegOps = [] \<rparr> [0x00, 0x00, 0x01, 0x80]
     = Inr (None, \<lparr> Contents = [0x00, 0x00, 0x01, 0x80], Payload = [],
                     RegOps = [\<lparr> Read = True, RegNum = 0x0001, RegValue = 0x0000 \<rparr>] \<rparr>) \<and>
   [\<lparr> Read = True, RegNum = 0x0001, RegValue = 0x0000 \<rparr>]
     \<noteq> [\<lparr> Read = True, RegNum = 0x0001, RegValue = 0x0005 \<rparr>]"
  by (simp add: Serialize_eq Serialize_word_def le_bytes_def DecodeFromBytes_eq Decode_word_def)


section \<open>Properties of the API server\<close>

subsection \<open>Rendering all registers in order\<close>

lemma regReadAllHex_loop_eq:
  "regReadAllHex_loop Hex regs regsHex =
     regsHex @ map (\<lambda>reg. \<lparr> Addr = fst (Hex reg), Value = snd (Hex reg) \<rparr>) regs"
  by (induction regs arbitrary: regsHex) (simp_all split: prod.splits)

text \<open>
  Claim C8. When the device is found and its \<open>RegReadAll\<close> returns the registers
  \<open>regs\<close>, \<open>regReadAllHex\<close> returns as many \<open>RegHex\<close> values as there are registers,
  and the one at index \<open>i\<close> is the \<open>Hex\<close> rendering of \<open>regs ! i\<close>: nothing is
  dropped, repeated or moved. The registry and the device are each called once.
\<close>

theorem regReadAllHex_order:
  assumes "GetDeviceByName ctrl device = Inr d"
    and "RegReadAll dev d w = (Inr regs, w')"
  shows "\<exists>regsHex.
           regReadAllHex ctrl dev Hex device (w, tr)
             = (Inr regsHex, (w', tr @ [CallGetDeviceByName device, CallRegReadAll d])) \<and>
           length regsHex = length regs \<and>
           (\<forall>i<length regs.
              regsHex ! i = \<lparr> Addr = fst (Hex (regs ! i)), Value = snd (Hex (regs ! i)) \<rparr>)"
  using assms
  by (simp add: regReadAllHex_def call_GetDeviceByName_def call_RegReadAll_def
      regReadAllHex_loop_eq)

theorem regReadAllHex_order_witness:
  "GetDeviceByName example_ctrl ''adc0'' = Inr 0 \<and>
   RegReadAll example_dev 0 7 = (Inr [(0, 5), (1, 9)], 8) \<and>
   regReadAllHex example_ctrl example_dev example_Hex ''adc0'' (7, [])
     = (Inr [\<lparr> Addr = ''0x0000'', Value = ''0x0005'' \<rparr>, \<lparr> Addr = ''0x0001'', Value = ''0x0009'' \<rparr>],
        (8, [CallGetDeviceByName ''adc0'', CallRegReadAll 0]))"
  using regReadAllHex_order [of example_ctrl "''adc0''" 0 example_dev 7 "[(0, 5), (1, 9)]" 8
      example_Hex "[]"]
  by (simp add: example_ctrl_def example_dev_def example_Hex_def regReadAllHex_def
      call_GetDeviceByName_def call_RegReadAll_def)

subsection \<open>Stream actions for all devices\<close>

lemma MStreamStart_loop_trace:
  "MStreamStart_loop dev ds (w, tr) = (resp, (w', tr')) \<Longrightarrow>
   \<exists>rs ws. length rs \<le> length ds \<and> length ws = Suc (length rs) \<and>
        ws ! 0 = w \<and> ws ! length rs = w' \<and>
        (\<forall>i<length rs. MStreamStart dev (ds ! i) (ws ! i) = (rs ! i, ws ! Suc i)) \<and>
        tr' = tr @ map2 CallMStreamStart (take (length rs) ds) rs \<and>
        (\<forall>r \<in> set (butlast rs). r = None) \<and>
        (resp = NoResponse \<longrightarrow> length rs = length ds \<and> (\<forall>r \<in> set rs. r = None)) \<and>
        (\<forall>e c. resp = HttpError e c \<longrightarrow> c = StatusBadGateway \<and> rs \<noteq> [] \<and> last rs = Some e)"
proof (induction ds arbitrary: w tr)
  case Nil
  then show ?case
    by (intro exI [of _ "[]"] exI [of _ "[w]"]) simp
next
  case (Cons d ds)
  obtain r w1 where call: "MStreamStart dev d w = (r, w1)"
    by (cases "MStreamStart dev d w")
  show ?case
  proof (cases r)
    case (Some err)
    with Cons.prems call
    have "resp = HttpError err StatusBadGateway" "tr' = tr @ [CallMStreamStart d (Some err)]" "w' = w1"
      by (simp_all add: call_MStreamStart_def)
    with call Some show ?thesis
      by (intro exI [of _ "[Some err]"] exI [of _ "[w, w1]"]) simp
  next
    case None
    with Cons.prems call
    have "MStreamStart_loop dev ds (w1, tr @ [CallMStreamStart d None]) = (resp, (w', tr'))"
      by (simp add: call_MStreamStart_def)
    from Cons.IH [OF this] obtain rs ws where rs:
      "length rs \<le> length ds" "length ws = Suc (length rs)"
      "ws ! 0 = w1" "ws ! length rs = w'"
      "\<forall>i<length rs. MStreamStart dev (ds ! i) (ws ! i) = (rs ! i, ws ! Suc i)"
      "tr' = (tr @ [CallMStreamStart d None]) @ map2 CallMStreamStart (take (length rs) ds) rs"
      "\<forall>r \<in> set (butlast rs). r = None"
      "resp = NoResponse \<longrightarrow> length rs = length ds \<and> (\<forall>r \<in> set rs. r = None)"
      "\<forall>e c. resp = HttpError e c \<longrightarrow> c = StatusBadGateway \<and> rs \<noteq> [] \<and> last rs = Some e"
      by blast
    have step: "\<forall>i<length (None # rs).
        MStreamStart dev ((d # ds) ! i) ((w # ws) ! i) = ((None # rs) ! i, (w # ws) ! Suc i)"
    proof (intro allI impI)
      fix i assume i: "i < length (None # rs)"
      show "MStreamStart dev ((d # ds) ! i) ((w # ws) ! i) = ((None # rs) ! i, (w # ws) ! Suc i)"
      proof (cases i)
        case 0
        with call None rs(3) show ?thesis by simp
      next
        case (Suc j)
        with i rs(5) show ?thesis by simp
      qed
    qed
    show ?thesis
      using rs(1-4,6-9) step
      by (intro exI [of _ "None # rs"] exI [of _ "w # ws"]) auto
  qed
qed

lemma MStreamStop_loop_trace:
  "MStreamStop_loop dev ds (w, tr) = (resp, (w', tr')) \<Longrightarrow>
   \<exists>rs ws. length rs \<le> length ds \<and> length ws = Suc (length rs) \<and>
        ws ! 0 = w \<and> ws ! length rs = w' \<and>
        (\<forall>i<length rs. MStreamStop dev (ds ! i) (ws ! i) = (rs ! i, ws ! Suc i)) \<and>
        tr' = tr @ map2 CallMStreamStop (take (length rs) ds) rs \<and>
        (\<forall>r \<in> set (butlast rs). r = None) \<and>
        (resp = NoResponse \<longrightarrow> length rs = length ds \<and> (\<forall>r \<in> set rs. r = None)) \<and>
        (\<forall>e c. resp = HttpError e c \<longrightarrow> c = StatusBadGateway \<and> rs \<noteq> [] \<and> last rs = Some e)"
proof (induction ds arbitrary: w tr)
  case Nil
  then show ?case
    by (intro exI [of _ "[]"] exI [of _ "[w]"]) simp
next
  case (Cons d ds)
  obtain r w1 where call: "MStreamStop dev d w = (r, w1)"
    by (cases "MStreamStop dev d w")
  show ?case
  proof (cases r)
    case (Some err)
    with Cons.prems call
    have "resp = HttpError err StatusBadGateway" "tr' = tr @ [CallMStreamStop d (Some err)]" "w' = w1"
      by (simp_all add: call_MStreamStop_def)
    with call Some show ?thesis
      by (intro exI [of _ "[Some err]"] exI [of _ "[w, w1]"]) simp
  next
    case None
    with Cons.prems call
    have "MStreamStop_loop dev ds (w1, tr @ [CallMStreamStop d None]) = (resp, (w', tr'))"
      by (simp add: call_MStreamStop_def)
    from Cons.IH [OF this] obtain rs ws where rs:
      "length rs \<le> length ds" "length ws = Suc (length rs)"
      "ws ! 0 = w1" "ws ! length rs = w'"
      "\<forall>i<length rs. MStreamStop dev (ds ! i) (ws ! i) = (rs ! i, ws ! Suc i)"
      "tr' = (tr @ [CallMStreamStop d None]) @ map2 CallMStreamStop (take (length rs) ds) rs"
      "\<forall>r \<in> set (butlast rs). r = None"
      "resp = NoResponse \<longrightarrow> length rs = length ds \<and> (\<forall>r \<in> set rs. r = None)"
      "\<forall>e c. resp = HttpError e c \<longrightarrow> c = StatusBadGateway \<and> rs \<noteq> [] \<and> last rs = Some e"
      by blast
    have step: "\<forall>i<length (None # rs).
        MStreamStop dev ((d # ds) ! i) ((w # ws) ! i) = ((None # rs) ! i, (w # ws) ! Suc i)"
    proof (intro allI impI)
      fix i assume i: "i < length (None # rs)"
      show "MStreamStop dev ((d # ds) ! i) ((w # ws) ! i) = ((None # rs) ! i, (w # ws) ! Suc i)"
      proof (cases i)
        case 0
        with call None rs(3) show ?thesis by simp
      next
        case (Suc j)
        with i rs(5) show ?thesis by simp
      qed
    qed
    show ?thesis
      using rs(1-4,6-9) step
      by (intro exI [of _ "None # rs"] exI [of _ "w # ws"]) auto
  qed
qed

text \<open>
  Claim C3. For the action \<open>start\<close> or \<open>stop\<close>, \<open>handleMStreamActionAll\<close> asks the
  registry once for all devices and then issues the command to the devices one after
  the other in the order of that enumeration. Below, \<open>rs\<close> are the results of the
  commands issued and \<open>ws\<close> the worlds they ran in: command number \<open>i\<close> goes to
  device number \<open>i\<close> of the enumeration, in the world the command before it left
  (the first in the world the handler started in), \<open>rs ! i\<close> is what that device
  returned there, and the handler ends in the world the last command left. The trace
  holds these commands and no other. Every result but the last is a success. If nothing
  is written to the response, every device of the enumeration got the command exactly
  once and all succeeded. If an error is written, it is the error the last commanded
  device returned, with status 502: no device after the failing one is invoked.
\<close>

theorem broadcast_fail_fast:
  assumes "mux_var vars ''action'' = ''start'' \<or> mux_var vars ''action'' = ''stop''"
    and "handleMStreamActionAll ctrl dev vars (w, tr) = (resp, (w', tr'))"
  shows "\<exists>rs ws.
           length rs \<le> length (GetAllDevices ctrl) \<and> length ws = Suc (length rs) \<and>
           ws ! 0 = w \<and> ws ! length rs = w' \<and>
           (\<forall>i<length rs.
              (if mux_var vars ''action'' = ''start'' then MStreamStart dev else MStreamStop dev)
                (GetAllDevices ctrl ! i) (ws ! i) = (rs ! i, ws ! Suc i)) \<and>
           tr' = tr @ CallGetAllDevices #
                   map2 (if mux_var vars ''action'' = ''start'' then CallMStreamStart
                         else CallMStreamStop)
                     (take (length rs) (GetAllDevices ctrl)) rs \<and>
           (\<forall>r \<in> set (butlast rs). r = None) \<and>
           (resp = NoResponse \<longrightarrow>
              length rs = length (GetAllDevices ctrl) \<and> (\<forall>r \<in> set rs. r = None)) \<and>
           (\<forall>e c. resp = HttpError e c \<longrightarrow>
              c = StatusBadGateway \<and> rs \<noteq> [] \<and> last rs = Some e)"
proof (cases "mux_var vars ''action'' = ''start''")
  case True
  with assms(2)
  have "MStreamStart_loop dev (GetAllDevices ctrl) (w, tr @ [CallGetAllDevices]) = (resp, (w', tr'))"
    by (simp add: handleMStreamActionAll_def call_GetAllDevices_def)
  from MStreamStart_loop_trace [OF this] True show ?thesis by simp
next
  case False
  with assms(1) have stop: "mux_var vars ''action'' = ''stop''" by simp
  with False assms(2)
  have "MStreamStop_loop dev (GetAllDevices ctrl) (w, tr @ [CallGetAllDevices]) = (resp, (w', tr'))"
    by (simp add: handleMStreamActionAll_def call_GetAllDevices_def)
  from MStreamStop_loop_trace [OF this] False show ?thesis by simp
qed

theorem broadcast_fail_fast_witness:
  "mux_var (example_vars ''start'' []) ''action'' = ''start'' \<and>
   handleMStreamActionAll example_ctrl example_dev (example_vars ''start'' []) (0, [])
     = (HttpError (Err ''no link'') StatusBadGateway,
        (2, [CallGetAllDevices, CallMStreamStart 0 None, CallMStreamStart 1 (Some (Err ''no link''))])) \<and>
   handleMStreamActionAll example_ctrl example_dev (example_vars ''stop'' []) (0, [])
     = (NoResponse,
        (3, [CallGetAllDevices, CallMStreamStop 0 None, CallMStreamStop 1 None, CallMStreamStop 2 None]))"
  using broadcast_fail_fast [of "example_vars ''start'' []" example_ctrl example_dev 0 "[]"
      "HttpError (Err ''no link'') StatusBadGateway" 2
      "[CallGetAllDevices, CallMStreamStart 0 None, CallMStreamStart 1 (Some (Err ''no link''))]"]
  by (simp add: example_vars_def example_ctrl_def example_dev_def mux_var_def
      handleMStreamActionAll_def call_GetAllDevices_def call_MStreamStart_def call_MStreamStop_def)

subsection \<open>Unknown stream actions\<close>

text \<open>
  Claim C4, as the code has it. For an action other than \<open>start\<close> and \<open>stop\<close>,
  neither handler issues a command to a device. \<open>handleMStreamActionAll\<close> answers 400
  with \<open>ErrUnknownOperation\<close> and calls neither the registry nor a device.
  \<open>handleMStreamAction\<close> looks the device up in the registry before it looks at the
  action: it makes that one call to the registry, and answers 404 with the error of the
  lookup when the device is unknown, and 400 with \<open>ErrUnknownOperation\<close> otherwise.
\<close>

theorem unknown_action:
  assumes "mux_var vars ''action'' \<noteq> ''start''" and "mux_var vars ''action'' \<noteq> ''stop''"
  shows "handleMStreamActionAll ctrl dev vars s
           = (HttpError (ErrUnknownOperation ''Wrong MStream action. Must be one of start/stop'')
                StatusBadRequest, s) \<and>
         handleMStreamAction ctrl dev vars s
           = (case GetDeviceByName ctrl (mux_var vars ''device'') of
                Inl err \<Rightarrow> HttpError err StatusNotFound
              | Inr d \<Rightarrow>
                  HttpError (ErrUnknownOperation ''Wrong MStream action. Must be one of start/stop'')
                    StatusBadRequest,
              (fst s, snd s @ [CallGetDeviceByName (mux_var vars ''device'')]))"
  using assms
  by (simp add: handleMStreamActionAll_def handleMStreamAction_def call_GetDeviceByName_def
      split: sum.splits)

theorem unknown_action_witness:
  "mux_var (example_vars ''pause'' ''adc0'') ''action'' \<noteq> ''start'' \<and>
   mux_var (example_vars ''pause'' ''adc0'') ''action'' \<noteq> ''stop'' \<and>
   handleMStreamActionAll example_ctrl example_dev (example_vars ''pause'' ''adc0'') (0, [])
     = (HttpError (ErrUnknownOperation ''Wrong MStream action. Must be one of start/stop'')
          StatusBadRequest, (0, [])) \<and>
   handleMStreamAction example_ctrl example_dev (example_vars ''pause'' ''adc0'') (0, [])
     = (HttpError (ErrUnknownOperation ''Wrong MStream action. Must be one of start/stop'')
          StatusBadRequest, (0, [CallGetDeviceByName ''adc0'']))"
  using unknown_action [of "example_vars ''pause'' ''adc0''" example_ctrl example_dev "(0, [])"]
  by (simp add: example_vars_def example_ctrl_def mux_var_def)

text \<open>
  The claim as the specification words it fails on \<open>handleMStreamAction\<close> for the
  unknown action \<open>pause\<close> on the unknown device \<open>adc9\<close>: the registry is consulted,
  and the answer is 404 with the error of the lookup, not \<open>ErrUnknownOperation\<close>.
\<close>

theorem unknown_action_counterexample:
  "mux_var (example_vars ''pause'' ''adc9'') ''action'' \<noteq> ''start'' \<and>
   mux_var (example_vars ''pause'' ''adc9'') ''action'' \<noteq> ''stop'' \<and>
   handleMStreamAction example_ctrl example_dev (example_vars ''pause'' ''adc9'') (0, [])
     = (HttpError (Err ''device not found'') StatusNotFound, (0, [CallGetDeviceByName ''adc9''])) \<and>
   HttpError (Err ''device not found'') StatusNotFound
     \<noteq> HttpError (ErrUnknownOperation ''Wrong MStream action. Must be one of start/stop'')
          StatusBadRequest \<and>
   [CallGetDeviceByName ''adc9''] \<noteq> ([] :: nat call list)"
  by (simp add: example_vars_def example_ctrl_def mux_var_def handleMStreamAction_def
      call_GetDeviceByName_def)

end
